theory Spec2Isabelle
  imports Main
begin

section \<open>Two-player Tic-Tac-Toe: the game engine of \<open>vite_frontend/src/main.js\<close>\<close>

text \<open>
  The engine keeps one mutable object \<open>state\<close> (board, current, winner, winningLine,
  moveCount) and changes it in \<open>handleMove\<close> and \<open>resetGame\<close>. The functions below take
  the state and return the updated one. \<open>render\<close> only reads \<open>state\<close> and writes to the
  document, so it does not appear in the state transformers; the part of it that the
  status readout needs, \<open>updateStatus\<close>, is modelled on its own element record.
\<close>

subsection \<open>JavaScript values and arrays\<close>

text \<open>
  A cell of the board holds \<open>null\<close>, \<open>'X'\<close> or \<open>'O'\<close>. Reading a property that an array
  does not have gives \<open>undefined\<close>: a read returns a \<open>cell option\<close>, where \<open>None\<close> is
  \<open>undefined\<close>.
\<close>

datatype mark = MarkX | MarkO

datatype cell = Null | Mark mark

text \<open>
  A JavaScript array is an object with integer-keyed properties and a \<open>length\<close>. A write
  at an array index at or beyond \<open>length\<close> extends the array (the positions in between
  stay holes); a write at any other integer key (a negative one, or one above the largest
  array index \<open>2^32 - 2\<close>) makes an ordinary property and leaves \<open>length\<close> alone. Indices
  range over the integers; other property keys are not modelled.
\<close>

record jsarray =
  elems :: "int \<Rightarrow> cell option"
  alen :: int

definition arr_new :: "int \<Rightarrow> jsarray" where
  \<comment> \<open>\<open>Array(n)\<close>: \<open>n\<close> holes\<close>
  "arr_new n = \<lparr>elems = (\<lambda>k. None), alen = n\<rparr>"

definition arr_fill :: "jsarray \<Rightarrow> cell \<Rightarrow> jsarray" where
  \<comment> \<open>\<open>a.fill(v)\<close>: every index below \<open>length\<close> is set to \<open>v\<close>\<close>
  "arr_fill a v = a\<lparr>elems := (\<lambda>k. if 0 \<le> k \<and> k < alen a then Some v else elems a k)\<rparr>"

definition arr_get :: "jsarray \<Rightarrow> int \<Rightarrow> cell option" where
  \<comment> \<open>\<open>a[i]\<close>\<close>
  "arr_get a i = elems a i"

definition arr_set :: "jsarray \<Rightarrow> int \<Rightarrow> cell \<Rightarrow> jsarray" where
  \<comment> \<open>\<open>a[i] = v\<close>\<close>
  "arr_set a i v =
     \<lparr>elems = (elems a)(i := Some v),
      alen = (if 0 \<le> i \<and> i < 2 ^ 32 - 1 \<and> alen a \<le> i then i + 1 else alen a)\<rparr>"

definition arr_every :: "(cell \<Rightarrow> bool) \<Rightarrow> jsarray \<Rightarrow> bool" where
  \<comment> \<open>\<open>a.every(f)\<close>: the callback runs on the elements that are present; holes are skipped\<close>
  "arr_every f a =
     list_all (\<lambda>k. case elems a k of None \<Rightarrow> True | Some c \<Rightarrow> f c) [0..alen a - 1]"

fun truthy :: "cell option \<Rightarrow> bool" where
  \<comment> \<open>\<open>undefined\<close> and \<open>null\<close> are falsy, the non-empty strings \<open>'X'\<close> and \<open>'O'\<close> are truthy\<close>
  "truthy None = False"
| "truthy (Some Null) = False"
| "truthy (Some (Mark m)) = True"

definition arr_of_list :: "cell list \<Rightarrow> jsarray" where
  \<comment> \<open>an array literal \<open>[c0, c1, ...]\<close>, used to write concrete boards\<close>
  "arr_of_list cs =
     \<lparr>elems = (\<lambda>k. if 0 \<le> k \<and> k < int (length cs) then Some (cs ! nat k) else None),
      alen = int (length cs)\<rparr>"

subsection \<open>Win and draw detection\<close>

type_synonym line = "int \<times> int \<times> int"

definition WIN_LINES :: "line list" where
  "WIN_LINES =
     [(0, 1, 2), (3, 4, 5), (6, 7, 8),
      (0, 3, 6), (1, 4, 7), (2, 5, 8),
      (0, 4, 8), (2, 4, 6)]"

text \<open>The \<open>for (const [a, b, c] of WIN_LINES)\<close> loop, returning at the first hit.\<close>

fun winning_line_loop :: "line list \<Rightarrow> jsarray \<Rightarrow> line option" where
  "winning_line_loop [] board = None"
| "winning_line_loop ((a, b, c) # ls) board =
     (if truthy (arr_get board a) \<and> arr_get board a = arr_get board b
         \<and> arr_get board a = arr_get board c
      then Some (a, b, c)
      else winning_line_loop ls board)"

definition getWinningLine :: "jsarray \<Rightarrow> line option" where
  "getWinningLine board = winning_line_loop WIN_LINES board"

definition getWinner :: "jsarray \<Rightarrow> cell option" where
  \<comment> \<open>\<open>line ? board[line[0]] : null\<close>\<close>
  "getWinner board =
     (case getWinningLine board of
        Some (a, b, c) \<Rightarrow> arr_get board a
      | None \<Rightarrow> Some Null)"

definition isDraw :: "jsarray \<Rightarrow> bool" where
  "isDraw board = (arr_every (\<lambda>c. c \<noteq> Null) board \<and> \<not> truthy (getWinner board))"

subsection \<open>The game state and its two mutators\<close>

record state =
  board :: jsarray
  current :: mark
  winner :: "mark option"
  winningLine :: "line option"
  moveCount :: nat

definition init_state :: state where
  "init_state =
     \<lparr>board = arr_fill (arr_new 9) Null,
      current = MarkX,
      winner = None,
      winningLine = None,
      moveCount = 0\<rparr>"

definition handleMove :: "state \<Rightarrow> int \<Rightarrow> state" where
  "handleMove s idx =
     (if winner s \<noteq> None then s
      else if truthy (arr_get (board s) idx) then s
      else if isDraw (board s) then s
      else
        let s1 = s\<lparr>board := arr_set (board s) idx (Mark (current s))\<rparr>;
            s2 = s1\<lparr>moveCount := moveCount s1 + 1\<rparr>;
            wl = getWinningLine (board s2)
        in if wl \<noteq> None
           then s2\<lparr>winner := Some (current s2), winningLine := wl\<rparr>
           else if \<not> isDraw (board s2)
           then s2\<lparr>current := (if current s2 = MarkX then MarkO else MarkX)\<rparr>
           else s2)"

definition resetGame :: "bool \<Rightarrow> state \<Rightarrow> state" where
  "resetGame hard s =
     s\<lparr>board := arr_fill (arr_new 9) Null,
       current := MarkX,
       winner := None,
       winningLine := None,
       moveCount := (if hard then 0 else 0)\<rparr>"

subsection \<open>The status readout\<close>

text \<open>
  \<open>updateStatus\<close> writes the content and the class list of the status element. Its
  content is a list of child nodes: \<open>innerHTML = `Winner: <strong>X</strong>`\<close> gives a
  text node followed by a \<open>strong\<close> element, \<open>textContent = ...\<close> gives one text node.
\<close>

datatype node = Text string | Elem string "node list"

fun textContent :: "node \<Rightarrow> string" where
  "textContent (Text t) = t"
| "textContent (Elem tag ns) = concat (map textContent ns)"

record element =
  children :: "node list"
  classList :: "string list"

definition class_add :: "string \<Rightarrow> string list \<Rightarrow> string list" where
  "class_add c cl = (if c \<in> set cl then cl else cl @ [c])"

definition class_remove :: "string \<Rightarrow> string list \<Rightarrow> string list" where
  "class_remove c cl = filter (\<lambda>d. d \<noteq> c) cl"

fun mark_str :: "mark \<Rightarrow> string" where
  "mark_str MarkX = ''X''"
| "mark_str MarkO = ''O''"

definition updateStatus :: "state \<Rightarrow> element \<Rightarrow> element" where
  "updateStatus s el =
     (case winner s of
        Some w \<Rightarrow>
          el\<lparr>children := [Text ''Winner: '', Elem ''strong'' [Text (mark_str w)]],
             classList := class_remove ''status--draw'' (class_add ''status--done'' (classList el))\<rparr>
      | None \<Rightarrow>
          if isDraw (board s)
          then el\<lparr>children := [Text ''It's a draw.''],
                  classList := class_add ''status--draw'' (class_add ''status--done'' (classList el))\<rparr>
          else el\<lparr>children := [Text ''Turn: '', Elem ''strong'' [Text (mark_str (current s))]],
                  classList := class_remove ''status--draw''
                                 (class_remove ''status--done'' (classList el))\<rparr>)"

definition status_text :: "element \<Rightarrow> string" where
  \<comment> \<open>the text the element shows: the text of its children, in order\<close>
  "status_text el = concat (map textContent (children el))"

definition status_el0 :: element where
  \<comment> \<open>the status element as created: \<open>h('div', { class: 'status', ... })\<close>, no children\<close>
  "status_el0 = \<lparr>children = [], classList = [''status'']\<rparr>"

subsection \<open>User input\<close>

text \<open>
  The listeners of the page are the only callers of the two mutators: a click (or
  Enter/Space) on cell \<open>i\<close> calls \<open>handleMove(i)\<close>, "Restart" calls \<open>resetGame()\<close> (so
  \<open>hard = false\<close>), "New Match" calls \<open>resetGame(true)\<close>. A run of the program is the
  initial state followed by a list of such calls.
\<close>

datatype action = Move int | Reset bool

fun step :: "state \<Rightarrow> action \<Rightarrow> state" where
  "step s (Move idx) = handleMove s idx"
| "step s (Reset hard) = resetGame hard s"

definition run :: "action list \<Rightarrow> state" where
  "run acts = foldl step init_state acts"

fun cell_action :: "action \<Rightarrow> bool" where
  \<comment> \<open>the calls the nine cell buttons and the two reset buttons can make\<close>
  "cell_action (Move idx) = (0 \<le> idx \<and> idx \<le> 8)"
| "cell_action (Reset hard) = True"

subsection \<open>Notions of the specification\<close>

text \<open>
  The specification's words, written over the same arrays, to compare the code with:
  a triple whose three cells are non-empty and identical, the eight triples in the order
  the specification lists them, the number of non-empty cells, a full board.
\<close>

definition three_in_row :: "jsarray \<Rightarrow> line \<Rightarrow> bool" where
  "three_in_row bd l =
     (case l of (a, b, c) \<Rightarrow>
        (case arr_get bd a of
           Some (Mark m) \<Rightarrow> arr_get bd b = Some (Mark m) \<and> arr_get bd c = Some (Mark m)
         | _ \<Rightarrow> False))"

definition spec_triples :: "line list" where
  "spec_triples =
     [(0, 1, 2), (3, 4, 5), (6, 7, 8)] @ [(0, 3, 6), (1, 4, 7), (2, 5, 8)] @ [(0, 4, 8), (2, 4, 6)]"

definition count_marks :: "jsarray \<Rightarrow> nat" where
  "count_marks bd = length (filter (\<lambda>k. truthy (arr_get bd k)) [0..alen bd - 1])"

definition board_full :: "jsarray \<Rightarrow> bool" where
  "board_full bd = list_all (\<lambda>k. truthy (arr_get bd k)) [0..8]"

subsection \<open>The marks a sequence of calls places\<close>

text \<open>
  An observer of a sequence of \<open>handleMove\<close> calls: a call places a mark exactly when the
  cell it was called on reads differently afterwards, and the list collects what those
  cells then hold, in the order of the calls.
\<close>

fun placed_marks :: "state \<Rightarrow> int list \<Rightarrow> cell option list" where
  "placed_marks s [] = []"
| "placed_marks s (idx # idxs) =
     (let s' = handleMove s idx
      in (if arr_get (board s') idx \<noteq> arr_get (board s) idx then [arr_get (board s') idx] else [])
         @ placed_marks s' idxs)"

definition turn_at :: "nat \<Rightarrow> mark" where
  \<comment> \<open>X, O, X, ...: the mark of the \<open>n\<close>-th placement, counted from 0\<close>
  "turn_at n = (if even n then MarkX else MarkO)"

subsection \<open>Concrete games\<close>

text \<open>
  The three end-to-end scenarios of the specification: X wins on the top row, a drawn
  game, and a single opening move.
\<close>

definition scenario_A :: state where
  "scenario_A = foldl handleMove init_state [0, 3, 1, 4, 2]"

definition scenario_B :: state where
  "scenario_B = foldl handleMove init_state [0, 1, 2, 4, 3, 5, 7, 6, 8]"

definition scenario_C :: state where
  "scenario_C = foldl handleMove init_state [0]"

text \<open>A board on which the top row and the left column are both complete.\<close>

definition two_lines_board :: jsarray where
  "two_lines_board =
     arr_of_list [Mark MarkO, Mark MarkO, Mark MarkO,
                  Mark MarkO, Mark MarkX, Mark MarkX,
                  Mark MarkO, Mark MarkX, Mark MarkX]"

section \<open>Basic facts\<close>

lemma truthy_iff: "truthy v = (\<exists>m. v = Some (Mark m))"
  by (cases v rule: truthy.cases) auto

lemma arr_get_set: "arr_get (arr_set a i v) k = (if k = i then Some v else arr_get a k)"
  by (simp add: arr_get_def arr_set_def)

lemma arr_of_list_get:
  "arr_get (arr_of_list cs) k = (if 0 \<le> k \<and> k < int (length cs) then Some (cs ! nat k) else None)"
  by (simp add: arr_get_def arr_of_list_def)

lemma every_iff:
  "arr_every f a =
     (\<forall>k. 0 \<le> k \<and> k < alen a \<longrightarrow> (case elems a k of None \<Rightarrow> True | Some c \<Rightarrow> f c))"
  by (auto simp: arr_every_def list_all_iff)

lemma every_of_list: "arr_every f (arr_of_list cs) = (\<forall>c \<in> set cs. f c)"
proof -
  have "arr_every f (arr_of_list cs) = (\<forall>k. 0 \<le> k \<and> k < int (length cs) \<longrightarrow> f (cs ! nat k))"
    by (simp add: every_iff arr_of_list_def)
  also have "\<dots> = (\<forall>i < length cs. f (cs ! i))"
  proof
    assume h: "\<forall>k. 0 \<le> k \<and> k < int (length cs) \<longrightarrow> f (cs ! nat k)"
    show "\<forall>i < length cs. f (cs ! i)"
    proof (intro allI impI)
      fix i assume "i < length cs"
      with h [rule_format, of "int i"] show "f (cs ! i)" by simp
    qed
  next
    assume h: "\<forall>i < length cs. f (cs ! i)"
    show "\<forall>k. 0 \<le> k \<and> k < int (length cs) \<longrightarrow> f (cs ! nat k)"
    proof (intro allI impI)
      fix k assume "0 \<le> k \<and> k < int (length cs)"
      then have "nat k < length cs" by linarith
      with h show "f (cs ! nat k)" by blast
    qed
  qed
  also have "\<dots> = (\<forall>c \<in> set cs. f c)"
    by (simp add: all_set_conv_all_nth)
  finally show ?thesis .
qed

text \<open>The board the program starts with, and resets to, is a nine-cell array of \<open>null\<close>.\<close>

lemma fresh_board_literal: "arr_fill (arr_new 9) Null = arr_of_list (replicate 9 Null)"
  by (auto simp: arr_fill_def arr_new_def arr_of_list_def fun_eq_iff)

lemma loop_find: "winning_line_loop ls bd = find (three_in_row bd) ls"
  by (induction ls bd rule: winning_line_loop.induct)
     (auto simp: three_in_row_def truthy_iff split: option.splits cell.splits)

lemma loop_Some_truthy:
  "winning_line_loop ls bd = Some (a, b, c) \<Longrightarrow> truthy (arr_get bd a)"
  by (induction ls bd rule: winning_line_loop.induct) (auto split: if_splits)

lemma getWinner_falsy: "(\<not> truthy (getWinner bd)) = (getWinningLine bd = None)"
  by (auto simp: getWinner_def getWinningLine_def split: option.splits dest: loop_Some_truthy)

lemma getWinner_Null: "(getWinner bd = Some Null) = (getWinningLine bd = None)"
  by (auto simp: getWinner_def getWinningLine_def split: option.splits dest: loop_Some_truthy)

text \<open>A call of \<open>handleMove\<close> that changes the state passed all three guards and placed a mark.\<close>

lemma handleMove_moved:
  assumes "handleMove s idx \<noteq> s"
  shows "winner s = None" and "\<not> truthy (arr_get (board s) idx)" and "\<not> isDraw (board s)"
    and "board (handleMove s idx) = arr_set (board s) idx (Mark (current s))"
    and "moveCount (handleMove s idx) = Suc (moveCount s)"
  using assms by (auto simp: handleMove_def Let_def split: if_splits)

section \<open>Rejected moves\<close>

text \<open>
  Claim C1. In every state in which \<open>winner\<close> is set, or the board is a draw (full, and
  no winner on it), or the target cell is already occupied, \<open>handleMove\<close> on that cell
  returns the state as it was: board, current turn, winner, winning line and move count
  are all unchanged. A board whose nine cells are all occupied rejects every cell as
  well, whatever \<open>isDraw\<close> says of it. The three guards of \<open>handleMove\<close> are plain
  \<open>return\<close>s and the function has no \<open>throw\<close>; reading \<open>state.board[idx]\<close> cannot fail
  on an array, so the model is a total function and the call always yields a state.
\<close>

theorem handleMove_rejected_noop:
  "winner s \<noteq> None \<or> isDraw (board s) \<or> truthy (arr_get (board s) idx)
     \<or> (board_full (board s) \<and> 0 \<le> idx \<and> idx \<le> 8)
     \<Longrightarrow> handleMove s idx = s"
  by (auto simp: handleMove_def board_full_def list_all_iff)

theorem handleMove_rejected_noop_witness:
  "winner scenario_A \<noteq> None \<and> handleMove scenario_A 5 = scenario_A
   \<and> isDraw (board scenario_B) \<and> board_full (board scenario_B)
   \<and> handleMove scenario_B 4 = scenario_B
   \<and> truthy (arr_get (board scenario_C) 0) \<and> handleMove scenario_C 0 = scenario_C"
proof -
  have a: "winner scenario_A \<noteq> None"
    unfolding scenario_A_def by code_simp
  have b: "isDraw (board scenario_B)" "board_full (board scenario_B)"
    unfolding scenario_B_def by code_simp+
  have c: "truthy (arr_get (board scenario_C) 0)"
    unfolding scenario_C_def by code_simp
  show ?thesis
    using a b c handleMove_rejected_noop [of scenario_A 5]
      handleMove_rejected_noop [of scenario_B 4] handleMove_rejected_noop [of scenario_C 0]
    by simp
qed

section \<open>Accepted moves\<close>

text \<open>
  Claim C2. In every state that passes the three guards (no winner, not a draw, the cell
  at \<open>idx\<close> not occupied), for \<open>idx\<close> from 0 to 8, \<open>handleMove\<close> stores the current mark
  at \<open>idx\<close> and adds one to \<open>moveCount\<close>. Then, if the updated board has a winning line,
  \<open>winner\<close> becomes the current mark, \<open>winningLine\<close> that line, and the turn stays;
  otherwise, if the updated board is not a draw, the turn flips between X and O;
  otherwise (a draw) the turn stays.
\<close>

theorem handleMove_accepted_effect:
  assumes "winner s = None" and "\<not> isDraw (board s)" and "\<not> truthy (arr_get (board s) idx)"
    and "0 \<le> idx" and "idx \<le> 8"
  shows "board (handleMove s idx) = arr_set (board s) idx (Mark (current s))
     \<and> arr_get (board (handleMove s idx)) idx = Some (Mark (current s))
     \<and> moveCount (handleMove s idx) = moveCount s + 1
     \<and> (case getWinningLine (board (handleMove s idx)) of
          Some l \<Rightarrow> winner (handleMove s idx) = Some (current s)
                  \<and> winningLine (handleMove s idx) = Some l
                  \<and> current (handleMove s idx) = current s
        | None \<Rightarrow> winner (handleMove s idx) = None
                  \<and> winningLine (handleMove s idx) = winningLine s
                  \<and> current (handleMove s idx) =
                      (if isDraw (board (handleMove s idx)) then current s
                       else (case current s of MarkX \<Rightarrow> MarkO | MarkO \<Rightarrow> MarkX)))"
  using assms
  by (auto simp: handleMove_def Let_def arr_get_set split: option.splits mark.splits)

theorem handleMove_accepted_effect_witness:
  "winner init_state = None \<and> \<not> isDraw (board init_state)
   \<and> \<not> truthy (arr_get (board init_state) 4) \<and> (0::int) \<le> 4 \<and> (4::int) \<le> 8
   \<and> arr_get (board (handleMove init_state 4)) 4 = Some (Mark MarkX)
   \<and> moveCount (handleMove init_state 4) = 1
   \<and> winner (handleMove init_state 4) = None
   \<and> current (handleMove init_state 4) = MarkO"
proof -
  have h1: "winner init_state = None" by (simp add: init_state_def)
  have h2: "\<not> isDraw (board init_state)" by code_simp
  have h3: "\<not> truthy (arr_get (board init_state) 4)" by code_simp
  have g: "getWinningLine (board (handleMove init_state 4)) = None" by code_simp
  have d: "\<not> isDraw (board (handleMove init_state 4))" by code_simp
  have c: "current init_state = MarkX" "moveCount init_state = 0"
    by (simp_all add: init_state_def)
  from handleMove_accepted_effect [OF h1 h2 h3] h1 h2 h3 g d c
  show ?thesis by (simp add: arr_get_set)
qed

section \<open>The winning line\<close>

text \<open>
  Claim C3. For every board (so for every nine-cell board), \<open>getWinningLine\<close> is the first
  of the eight triples, taken in the order rows (0,1,2) (3,4,5) (6,7,8), columns (0,3,6)
  (1,4,7) (2,5,8), diagonals (0,4,8) (2,4,6), whose three cells are non-empty and
  identical, and none if no triple is such; it is none on the all-empty board.
  (\<open>find\<close> is the library's first element of a list that satisfies a predicate.)
\<close>

theorem getWinningLine_first_match:
  "getWinningLine bd = find (three_in_row bd) spec_triples
   \<and> getWinningLine (arr_fill (arr_new 9) Null) = None"
  by (simp add: getWinningLine_def loop_find WIN_LINES_def spec_triples_def
      three_in_row_def arr_get_def arr_fill_def arr_new_def)

text \<open>On a board with the top row and the left column complete, the row is returned.\<close>

theorem getWinningLine_first_match_witness:
  "three_in_row two_lines_board (0, 1, 2) \<and> three_in_row two_lines_board (0, 3, 6)
   \<and> getWinningLine two_lines_board = Some (0, 1, 2)"
proof -
  have a: "three_in_row two_lines_board (0, 1, 2)" by code_simp
  have b: "three_in_row two_lines_board (0, 3, 6)" by code_simp
  from a have "find (three_in_row two_lines_board) spec_triples = Some (0, 1, 2)"
    by (simp add: spec_triples_def)
  with a b getWinningLine_first_match [of two_lines_board] show ?thesis by simp
qed

section \<open>Draws\<close>

text \<open>
  Claim C4. For every nine-cell board, \<open>isDraw\<close> is true if and only if every one of the
  nine cells is non-empty and \<open>getWinner\<close> of the board is \<open>null\<close>.
\<close>

theorem isDraw_iff_full_no_winner:
  "length cs = 9 \<Longrightarrow>
     isDraw (arr_of_list cs)
       = ((\<forall>c \<in> set cs. c \<noteq> Null) \<and> getWinner (arr_of_list cs) = Some Null)"
  by (simp add: isDraw_def getWinner_falsy getWinner_Null every_of_list)

theorem isDraw_iff_full_no_winner_witness:
  "length [Mark MarkO, Mark MarkO, Mark MarkO, Mark MarkO, Mark MarkX, Mark MarkX,
           Mark MarkO, Mark MarkX, Mark MarkX] = 9
   \<and> \<not> isDraw two_lines_board
   \<and> getWinner two_lines_board \<noteq> Some Null"
proof -
  have w: "getWinner two_lines_board = Some (Mark MarkO)" by code_simp
  have l: "length [Mark MarkO, Mark MarkO, Mark MarkO, Mark MarkO, Mark MarkX, Mark MarkX,
           Mark MarkO, Mark MarkX, Mark MarkX] = 9" by simp
  from isDraw_iff_full_no_winner [OF l] w l show ?thesis
    by (simp add: two_lines_board_def)
qed

section \<open>The move counter\<close>

lemma filter_one_more:
  "distinct xs \<Longrightarrow> i \<in> set xs \<Longrightarrow> \<not> P i \<Longrightarrow>
     length (filter (\<lambda>k. k = i \<or> P k) xs) = Suc (length (filter P xs))"
proof (induction xs)
  case Nil
  then show ?case by simp
next
  case (Cons x xs)
  show ?case
  proof (cases "x = i")
    case True
    with Cons.prems have "i \<notin> set xs" by simp
    then have "filter (\<lambda>k. k = i \<or> P k) xs = filter P xs"
      by (intro filter_cong) auto
    with True Cons.prems show ?thesis by simp
  next
    case False
    with Cons show ?thesis by simp
  qed
qed

lemma count_marks_set:
  assumes "0 \<le> idx" and "idx < alen bd" and "\<not> truthy (arr_get bd idx)"
  shows "alen (arr_set bd idx (Mark m)) = alen bd"
    and "count_marks (arr_set bd idx (Mark m)) = Suc (count_marks bd)"
proof -
  show l: "alen (arr_set bd idx (Mark m)) = alen bd"
    using assms by (simp add: arr_set_def)
  have "(\<lambda>k. truthy (arr_get (arr_set bd idx (Mark m)) k)) = (\<lambda>k. k = idx \<or> truthy (arr_get bd k))"
    by (auto simp: arr_get_set)
  moreover have "idx \<in> set [0..alen bd - 1]" using assms by simp
  ultimately show "count_marks (arr_set bd idx (Mark m)) = Suc (count_marks bd)"
    using assms(3) by (simp add: count_marks_def l filter_one_more)
qed

lemma count_inv_step:
  assumes "alen (board s) = 9 \<and> moveCount s = count_marks (board s)" and "cell_action a"
  shows "alen (board (step s a)) = 9 \<and> moveCount (step s a) = count_marks (board (step s a))"
proof (cases a)
  case (Move idx)
  show ?thesis
  proof (cases "handleMove s idx = s")
    case True
    with Move assms show ?thesis by simp
  next
    case False
    note mv = handleMove_moved [OF False]
    from Move assms have r: "0 \<le> idx" "idx < alen (board s)" by auto
    from count_marks_set [OF r mv(2)] mv(4,5) assms(1) Move show ?thesis by simp
  qed
next
  case (Reset hard)
  have "count_marks (arr_fill (arr_new 9) Null) = 0"
    by (simp add: count_marks_def arr_fill_def arr_new_def arr_get_def)
  with Reset show ?thesis by (simp add: resetGame_def arr_fill_def arr_new_def)
qed

lemma count_inv_run:
  "list_all cell_action acts \<Longrightarrow>
     alen (board (foldl step init_state acts)) = 9
     \<and> moveCount (foldl step init_state acts) = count_marks (board (foldl step init_state acts))"
proof (induction acts rule: rev_induct)
  case Nil
  show ?case
    by (simp add: init_state_def count_marks_def arr_fill_def arr_new_def arr_get_def)
next
  case (snoc a acts)
  then show ?case using count_inv_step [of "foldl step init_state acts" a] by simp
qed

text \<open>
  Claim C5. In every state reached from the initial state by any sequence of
  \<open>handleMove\<close> calls with an index from 0 to 8 and \<open>resetGame\<close> calls (either flag),
  \<open>moveCount\<close> is the number of non-empty cells of the board.
\<close>

theorem moveCount_counts_marks:
  "list_all cell_action acts \<Longrightarrow> moveCount (run acts) = count_marks (board (run acts))"
  using count_inv_run [of acts] by (simp add: run_def)

theorem moveCount_counts_marks_witness:
  "list_all cell_action [Move 4, Move 4, Move 0, Reset True, Move 8, Move 2]
   \<and> moveCount (run [Move 4, Move 4, Move 0, Reset True, Move 8, Move 2]) = 2
   \<and> count_marks (board (run [Move 4, Move 4, Move 0, Reset True, Move 8, Move 2])) = 2"
proof -
  have a: "list_all cell_action [Move 4, Move 4, Move 0, Reset True, Move 8, Move 2]"
    by simp
  have b: "moveCount (run [Move 4, Move 4, Move 0, Reset True, Move 8, Move 2]) = 2"
    by code_simp
  from a b moveCount_counts_marks [OF a] show ?thesis by simp
qed

section \<open>Reset\<close>

text \<open>
  Claim C6. From every state and for both values of the \<open>hard\<close> flag, \<open>resetGame\<close> gives
  the state with an all-empty board, X to move, no winner, no winning line and move
  count 0; the flag makes no difference.
\<close>

theorem resetGame_fresh:
  "resetGame hard s =
     \<lparr>board = arr_of_list (replicate 9 Null), current = MarkX, winner = None,
      winningLine = None, moveCount = 0\<rparr>
   \<and> resetGame True s = resetGame False s"
  by (simp add: resetGame_def fresh_board_literal)

section \<open>Status text\<close>

text \<open>
  Claim C7, as stated: the status text is "Winner: {winner}" when the winner is set,
  otherwise "Draw" when the board is a draw, otherwise "Turn: {currentTurn}". The code
  writes another text for a draw: after the drawn game of scenario B the status does not
  read "Draw".
\<close>

theorem status_text_draw_counterexample:
  "winner scenario_B = None \<and> isDraw (board scenario_B)
   \<and> status_text (updateStatus scenario_B status_el0) \<noteq> ''Draw''"
proof -
  have a: "winner scenario_B = None"
    unfolding scenario_B_def by code_simp
  have b: "isDraw (board scenario_B)"
    unfolding scenario_B_def by code_simp
  show ?thesis
    using a b by (simp add: status_text_def updateStatus_def)
qed

text \<open>
  Claim C7, amended: for every state, the status text is "Winner: {winner}" when the
  winner is set, otherwise "It's a draw." when the board is a draw, otherwise
  "Turn: {currentTurn}".
\<close>

theorem status_text_cases:
  "status_text (updateStatus s el) =
     (case winner s of
        Some w \<Rightarrow> ''Winner: '' @ mark_str w
      | None \<Rightarrow> if isDraw (board s) then ''It's a draw.'' else ''Turn: '' @ mark_str (current s))"
  by (simp add: status_text_def updateStatus_def split: option.splits)

theorem status_text_cases_witness:
  "status_text (updateStatus scenario_A status_el0) = ''Winner: X''
   \<and> status_text (updateStatus scenario_B status_el0) = ''It's a draw.''
   \<and> status_text (updateStatus scenario_C status_el0) = ''Turn: O''"
proof -
  have a: "winner scenario_A = Some MarkX"
    unfolding scenario_A_def by code_simp
  have b: "winner scenario_B = None" "isDraw (board scenario_B)"
    unfolding scenario_B_def by code_simp+
  have c: "winner scenario_C = None" "\<not> isDraw (board scenario_C)" "current scenario_C = MarkO"
    unfolding scenario_C_def by code_simp+
  show ?thesis
    using a b c status_text_cases [of scenario_A status_el0]
      status_text_cases [of scenario_B status_el0] status_text_cases [of scenario_C status_el0]
    by simp
qed

section \<open>The winner keeps the turn\<close>

lemma winner_inv_handleMove:
  "winner s = None \<or> winner s = Some (current s) \<Longrightarrow>
     winner (handleMove s idx) = None
     \<or> winner (handleMove s idx) = Some (current (handleMove s idx))"
  by (auto simp: handleMove_def Let_def)

lemma winner_inv_run:
  "winner (foldl step init_state acts) = None
   \<or> winner (foldl step init_state acts) = Some (current (foldl step init_state acts))"
proof (induction acts rule: rev_induct)
  case Nil
  show ?case by (simp add: init_state_def)
next
  case (snoc a acts)
  show ?case
  proof (cases a)
    case (Move idx)
    with snoc winner_inv_handleMove show ?thesis by simp
  next
    case (Reset hard)
    then show ?thesis by (simp add: resetGame_def)
  qed
qed

text \<open>
  Claim C9. In every state reached from the initial state by any sequence of
  \<open>handleMove\<close> calls (any index) and \<open>resetGame\<close> calls, if the winner is set then the
  current turn is the winner.
\<close>

theorem winner_is_current:
  "winner (run acts) = Some w \<Longrightarrow> current (run acts) = w"
  using winner_inv_run [of acts] by (auto simp: run_def)

theorem winner_is_current_witness:
  "winner (run [Move 0, Move 3, Move 1, Move 4, Move 2]) = Some MarkX
   \<and> current (run [Move 0, Move 3, Move 1, Move 4, Move 2]) = MarkX"
proof -
  have a: "winner (run [Move 0, Move 3, Move 1, Move 4, Move 2]) = Some MarkX"
    by code_simp
  from a winner_is_current [OF a] show ?thesis by simp
qed

section \<open>Indices outside the board\<close>

text \<open>
  Claim C10, as stated: in every state in progress (no winner, board not a draw) and for
  every index outside 0 to 8, \<open>handleMove\<close> is not a no-op. It fails on a state the
  program reaches by such a call: after \<open>handleMove(9)\<close> on the fresh state the game is
  still in progress, position 9 holds X, and a second \<open>handleMove(9)\<close> is rejected by the
  occupied-cell guard and returns the state as it was.
\<close>

theorem handleMove_out_of_range_counterexample:
  "winner (run [Move 9]) = None \<and> \<not> isDraw (board (run [Move 9]))
   \<and> ((9::int) < 0 \<or> (8::int) < 9)
   \<and> handleMove (run [Move 9]) 9 = run [Move 9]"
proof -
  have w: "winner (run [Move 9]) = None" by code_simp
  have d: "\<not> isDraw (board (run [Move 9]))" by code_simp
  have t: "truthy (arr_get (board (run [Move 9])) 9)" by code_simp
  from t have "handleMove (run [Move 9]) 9 = run [Move 9]"
    by (simp add: handleMove_def)
  with w d show ?thesis by simp
qed

text \<open>
  Claim C10, amended: in every state in progress (no winner, board not a draw) and for
  every index outside 0 to 8 at which the board holds no mark yet, which is every such
  index when the board is a nine-cell array, the occupied-cell guard does not reject the
  index and \<open>handleMove\<close> is not a no-op: the current mark is stored at that position
  and \<open>moveCount\<close> grows by one, while cells 0 to 8 stay as they were.
\<close>

theorem handleMove_out_of_range:
  assumes "winner s = None" and "\<not> isDraw (board s)" and "idx < 0 \<or> 8 < idx"
    and "\<not> truthy (arr_get (board s) idx) \<or> (length cs = 9 \<and> board s = arr_of_list cs)"
  shows "\<not> truthy (arr_get (board s) idx)
     \<and> handleMove s idx \<noteq> s
     \<and> arr_get (board (handleMove s idx)) idx = Some (Mark (current s))
     \<and> moveCount (handleMove s idx) = moveCount s + 1
     \<and> (\<forall>k. 0 \<le> k \<and> k \<le> 8 \<longrightarrow> arr_get (board (handleMove s idx)) k = arr_get (board s) k)"
proof -
  have g: "\<not> truthy (arr_get (board s) idx)"
    using assms(3,4) by (auto simp: arr_of_list_get)
  have b: "board (handleMove s idx) = arr_set (board s) idx (Mark (current s))"
    and m: "moveCount (handleMove s idx) = moveCount s + 1"
    using assms(1,2) g by (auto simp: handleMove_def Let_def)
  from m have "handleMove s idx \<noteq> s"
    by (metis n_not_Suc_n Suc_eq_plus1)
  moreover have "\<forall>k. 0 \<le> k \<and> k \<le> 8 \<longrightarrow> arr_get (board (handleMove s idx)) k = arr_get (board s) k"
    using assms(3) by (auto simp: b arr_get_set)
  ultimately show ?thesis
    using g m by (simp add: b arr_get_set)
qed

text \<open>
  Two instances: index 9 on the fresh nine-cell board, and index 10 on the ten-element
  board that the first call leaves behind.
\<close>

theorem handleMove_out_of_range_witness:
  "winner init_state = None \<and> \<not> isDraw (board init_state) \<and> ((9::int) < 0 \<or> (8::int) < 9)
   \<and> length (replicate 9 Null) = 9 \<and> board init_state = arr_of_list (replicate 9 Null)
   \<and> handleMove init_state 9 \<noteq> init_state
   \<and> arr_get (board (handleMove init_state 9)) 9 = Some (Mark MarkX)
   \<and> moveCount (handleMove init_state 9) = 1
   \<and> winner (run [Move 9]) = None \<and> \<not> isDraw (board (run [Move 9]))
   \<and> ((10::int) < 0 \<or> (8::int) < 10)
   \<and> \<not> truthy (arr_get (board (run [Move 9])) 10)
   \<and> handleMove (run [Move 9]) 10 \<noteq> run [Move 9]
   \<and> arr_get (board (handleMove (run [Move 9]) 10)) 10 = Some (Mark MarkO)
   \<and> moveCount (handleMove (run [Move 9]) 10) = 2"
proof -
  have h1: "winner init_state = None" by (simp add: init_state_def)
  have h2: "\<not> isDraw (board init_state)" by code_simp
  have h3: "(9::int) < 0 \<or> (8::int) < 9" by simp
  have h4: "\<not> truthy (arr_get (board init_state) 9)
      \<or> (length (replicate 9 Null) = 9 \<and> board init_state = arr_of_list (replicate 9 Null))"
    by (simp add: init_state_def fresh_board_literal)
  have c: "current init_state = MarkX" "moveCount init_state = 0"
    by (simp_all add: init_state_def)
  have k1: "winner (run [Move 9]) = None" by code_simp
  have k2: "\<not> isDraw (board (run [Move 9]))" by code_simp
  have k3: "(10::int) < 0 \<or> (8::int) < 10" by simp
  have k4: "\<not> truthy (arr_get (board (run [Move 9])) 10)" by code_simp
  have k5: "\<not> truthy (arr_get (board (run [Move 9])) 10)
      \<or> (length ([]::cell list) = 9 \<and> board (run [Move 9]) = arr_of_list [])"
    using k4 by simp
  have e: "current (run [Move 9]) = MarkO" "moveCount (run [Move 9]) = 1"
    by code_simp+
  have a: "handleMove init_state 9 \<noteq> init_state
     \<and> arr_get (board (handleMove init_state 9)) 9 = Some (Mark MarkX)
     \<and> moveCount (handleMove init_state 9) = 1"
    using handleMove_out_of_range [OF h1 h2 h3 h4] c by simp
  have b: "handleMove (run [Move 9]) 10 \<noteq> run [Move 9]
     \<and> arr_get (board (handleMove (run [Move 9]) 10)) 10 = Some (Mark MarkO)
     \<and> moveCount (handleMove (run [Move 9]) 10) = 2"
    using handleMove_out_of_range [OF k1 k2 k3 k5] e by simp
  from a b h1 h2 k1 k2 k4 h4 show ?thesis
    by (simp add: init_state_def fresh_board_literal)
qed

section \<open>Alternation of turns\<close>

text \<open>While a game is in progress the current turn is given by the parity of the move count.\<close>

lemma turn_inv_handleMove:
  assumes "winner s = None \<and> \<not> isDraw (board s) \<longrightarrow> current s = turn_at (moveCount s)"
  shows "winner (handleMove s idx) = None \<and> \<not> isDraw (board (handleMove s idx))
           \<longrightarrow> current (handleMove s idx) = turn_at (moveCount (handleMove s idx))"
  using assms by (auto simp: handleMove_def Let_def turn_at_def)

lemma placed_marks_from:
  assumes "winner s = None \<and> \<not> isDraw (board s) \<longrightarrow> current s = turn_at (moveCount s)"
  shows "moveCount s \<le> moveCount (foldl handleMove s idxs)
     \<and> placed_marks s idxs =
         map (\<lambda>k. Some (Mark (turn_at k))) [moveCount s..<moveCount (foldl handleMove s idxs)]"
  using assms
proof (induction idxs arbitrary: s)
  case Nil
  show ?case by simp
next
  case (Cons idx idxs)
  let ?s' = "handleMove s idx"
  note ih = Cons.IH [OF turn_inv_handleMove [OF Cons.prems]]
  show ?case
  proof (cases "?s' = s")
    case True
    with ih [of idx] show ?thesis by simp
  next
    case False
    note mv = handleMove_moved [OF False]
    from mv(1,3) Cons.prems have c: "current s = turn_at (moveCount s)" by simp
    from mv(4) have new: "arr_get (board ?s') idx = Some (Mark (current s))"
      by (simp add: arr_get_set)
    with mv(2) have ch: "arr_get (board ?s') idx \<noteq> arr_get (board s) idx"
      by (metis truthy.simps(3))
    from ih [of idx] mv(5) have le: "Suc (moveCount s) \<le> moveCount (foldl handleMove ?s' idxs)"
      by simp
    then have "[moveCount s..<moveCount (foldl handleMove ?s' idxs)]
        = moveCount s # [Suc (moveCount s)..<moveCount (foldl handleMove ?s' idxs)]"
      by (simp add: upt_conv_Cons)
    with ih [of idx] mv(5) ch new c le show ?thesis by simp
  qed
qed

text \<open>
  From the fresh state, every \<open>null\<close> on the board is in one of the nine cells, and the
  board has no complete line as long as no winner is recorded.
\<close>

lemma fresh_inv_handleMove:
  assumes "\<forall>k. elems (board s) k = Some Null \<longrightarrow> 0 \<le> k \<and> k \<le> 8"
    and "winner s = None \<longrightarrow> getWinningLine (board s) = None"
  shows "\<forall>k. elems (board (handleMove s idx)) k = Some Null \<longrightarrow> 0 \<le> k \<and> k \<le> 8"
    and "winner (handleMove s idx) = None \<longrightarrow> getWinningLine (board (handleMove s idx)) = None"
proof -
  show "\<forall>k. elems (board (handleMove s idx)) k = Some Null \<longrightarrow> 0 \<le> k \<and> k \<le> 8"
    using assms(1) by (simp add: handleMove_def Let_def arr_set_def)
  show "winner (handleMove s idx) = None \<longrightarrow> getWinningLine (board (handleMove s idx)) = None"
    using assms(2)
    by (cases "getWinningLine (arr_set (board s) idx (Mark (current s)))")
       (auto simp: handleMove_def Let_def)
qed

lemma fresh_inv_run:
  "(\<forall>k. elems (board (foldl handleMove init_state idxs)) k = Some Null \<longrightarrow> 0 \<le> k \<and> k \<le> 8)
   \<and> (winner (foldl handleMove init_state idxs) = None
        \<longrightarrow> getWinningLine (board (foldl handleMove init_state idxs)) = None)"
proof (induction idxs rule: rev_induct)
  case Nil
  have "getWinningLine (arr_fill (arr_new 9) Null) = None"
    by (simp add: getWinningLine_def WIN_LINES_def arr_get_def arr_fill_def arr_new_def)
  then show ?case by (simp add: init_state_def arr_fill_def arr_new_def)
next
  case (snoc idx idxs)
  with fresh_inv_handleMove [of "foldl handleMove init_state idxs" idx] show ?case by simp
qed

lemma full_board_is_draw:
  assumes "\<forall>k. elems bd k = Some Null \<longrightarrow> 0 \<le> k \<and> k \<le> 8"
    and "getWinningLine bd = None" and "board_full bd"
  shows "isDraw bd"
proof -
  have "case elems bd k of None \<Rightarrow> True | Some c \<Rightarrow> c \<noteq> Null" for k
  proof (cases "0 \<le> k \<and> k \<le> 8")
    case True
    with assms(3) have "truthy (arr_get bd k)" by (simp add: board_full_def list_all_iff)
    then show ?thesis by (auto simp: truthy_iff arr_get_def)
  next
    case False
    with assms(1) show ?thesis by (auto split: option.splits)
  qed
  then have "arr_every (\<lambda>c. c \<noteq> Null) bd" by (simp add: every_iff)
  with assms(2) show ?thesis by (simp add: isDraw_def getWinner_falsy)
qed

lemma game_over_frozen:
  assumes "\<And>idx. handleMove s idx = s"
  shows "foldl handleMove s idxs = s"
  by (induction idxs) (simp_all add: assms)

text \<open>
  Claim C8. Along every sequence of \<open>handleMove\<close> calls from the fresh state, the marks
  placed are X, O, X, ... in strict alternation (as many as the final move count says),
  and once the winner is set or the nine cells are all occupied, no further sequence of
  \<open>handleMove\<close> calls changes the current turn.
\<close>

theorem turns_alternate:
  "placed_marks init_state idxs =
     map (\<lambda>k. Some (Mark (turn_at k))) [0..<moveCount (foldl handleMove init_state idxs)]
   \<and> (winner (foldl handleMove init_state idxs) \<noteq> None
        \<or> board_full (board (foldl handleMove init_state idxs))
      \<longrightarrow> current (foldl handleMove (foldl handleMove init_state idxs) later)
           = current (foldl handleMove init_state idxs))"
proof -
  let ?s = "foldl handleMove init_state idxs"
  have "winner init_state = None \<and> \<not> isDraw (board init_state)
          \<longrightarrow> current init_state = turn_at (moveCount init_state)"
    by (simp add: init_state_def turn_at_def)
  from placed_marks_from [OF this, of idxs]
  have p: "placed_marks init_state idxs =
     map (\<lambda>k. Some (Mark (turn_at k))) [0..<moveCount ?s]"
    by (simp add: init_state_def)
  have "foldl handleMove ?s later = ?s" if over: "winner ?s \<noteq> None \<or> board_full (board ?s)"
  proof (rule game_over_frozen)
    fix idx
    from over fresh_inv_run [of idxs] full_board_is_draw [of "board ?s"]
    have "winner ?s \<noteq> None \<or> isDraw (board ?s)" by blast
    then show "handleMove ?s idx = ?s" by (auto simp: handleMove_def)
  qed
  with p show ?thesis by simp
qed

theorem turns_alternate_witness:
  "placed_marks init_state [0, 0, 3, 1, 9, 2]
     = [Some (Mark MarkX), Some (Mark MarkO), Some (Mark MarkX), Some (Mark MarkO),
        Some (Mark MarkX)]
   \<and> winner (foldl handleMove init_state [0, 0, 3, 1, 9, 2]) \<noteq> None
   \<and> current (foldl handleMove (foldl handleMove init_state [0, 0, 3, 1, 9, 2]) [6, 7])
       = current (foldl handleMove init_state [0, 0, 3, 1, 9, 2])"
proof -
  have m: "moveCount (foldl handleMove init_state [0, 0, 3, 1, 9, 2]) = 5"
    by code_simp
  have w: "winner (foldl handleMove init_state [0, 0, 3, 1, 9, 2]) \<noteq> None"
    by code_simp
  have u: "[0..<5] = [0, 1, 2, 3, 4::nat]"
    by (simp add: upt_rec)
  from turns_alternate [of "[0, 0, 3, 1, 9, 2]" "[6, 7]"] m w u
  show ?thesis by (simp add: turn_at_def)
qed

end
